theory Spec2Isabelle
  imports Main "HOL-Library.Sublist"
begin

section \<open>Python strings\<close>

text \<open>
  A Python \<open>str\<close> is a sequence of code points and \<open>len\<close> counts code points. The
  model's alphabet is the code points below 256 (\<open>Ch c\<close>, the character with code
  \<open>of_char c\<close>) together with the four characters beyond that range which occur in the
  literals of \<open>cnode_check.py\<close>: U+1F514 (bell), U+26A0 (warning sign), U+FE0F (variation
  selector 16) and U+2022 (bullet). On this alphabet \<open>str.lower\<close> and \<open>int\<close> are
  modelled exactly; none of the four symbols is cased, a digit or white space.
\<close>

datatype symbol = Bell | Warning | Selector | Bullet

datatype uchar = Ch char | Sym symbol

type_synonym str = "uchar list"

abbreviation lit :: "string \<Rightarrow> str" where
  "lit \<equiv> map Ch"

text \<open>\<open>s.lstrip(chars)\<close>: drops the longest prefix made of characters of \<open>chars\<close>.\<close>

definition str_lstrip :: "str \<Rightarrow> str \<Rightarrow> str" where
  "str_lstrip chars s = dropWhile (\<lambda>c. c \<in> set chars) s"

text \<open>\<open>s.split(sep)\<close> for a separator of one character: never an empty list, empty
  pieces are kept.\<close>

fun str_split :: "uchar \<Rightarrow> str \<Rightarrow> str list" where
  "str_split sep [] = [[]]"
| "str_split sep (c # cs) =
     (if c = sep then [] # str_split sep cs
      else (case str_split sep cs of
              [] \<Rightarrow> [[c]]
            | piece # pieces \<Rightarrow> (c # piece) # pieces))"

text \<open>\<open>s.lower()\<close>: on code points below 256 the cased characters are A-Z and
  U+00C0-U+00DE without U+00D7, each 32 below its lower-case form.\<close>

definition lower_char :: "uchar \<Rightarrow> uchar" where
  "lower_char c =
     (case c of
        Sym y \<Rightarrow> Sym y
      | Ch a \<Rightarrow>
          (let n = (of_char a :: nat)
           in if (65 \<le> n \<and> n \<le> 90) \<or> (192 \<le> n \<and> n \<le> 222 \<and> n \<noteq> 215)
              then Ch (char_of (n + 32)) else Ch a))"

definition str_lower :: "str \<Rightarrow> str" where
  "str_lower s = map lower_char s"

text \<open>\<open>sep.join(parts)\<close>.\<close>

fun str_join :: "str \<Rightarrow> str list \<Rightarrow> str" where
  "str_join sep [] = []"
| "str_join sep [p] = p"
| "str_join sep (p # q # ps) = p @ sep @ str_join sep (q # ps)"

section \<open>Exceptions\<close>

datatype exn =
    RequestException str
  | KeyError str
  | TypeError
  | ValueError
  | IndexError
  | OSError

section \<open>The built-in \<open>int\<close> on strings\<close>

text \<open>
  \<open>int(s)\<close> in base 10: white space around the number is dropped (code points 9-13, 32,
  133 and 160), one sign may come first, then decimal digits, where a single underscore
  may stand between two digits. Anything else raises \<open>ValueError\<close>, and so does a
  number of more than \<open>max_str_digits\<close> digits (underscores, sign and white space
  not counted, leading zeros counted): the interpreter's limit on conversions, which is
  4300 unless changed, and the program does not change it. Python integers are
  unbounded.
\<close>

definition max_str_digits :: nat where
  "max_str_digits = 4300"

definition is_space :: "uchar \<Rightarrow> bool" where
  "is_space c =
     (case c of
        Sym y \<Rightarrow> False
      | Ch a \<Rightarrow> (of_char a :: nat) \<in> {9, 10, 11, 12, 13, 32, 133, 160})"

definition digit_val :: "uchar \<Rightarrow> nat option" where
  "digit_val c =
     (case c of
        Sym y \<Rightarrow> None
      | Ch a \<Rightarrow>
          (let n = (of_char a :: nat)
           in if 48 \<le> n \<and> n \<le> 57 then Some (n - 48) else None))"

fun digits :: "nat \<Rightarrow> str \<Rightarrow> nat option" where
  "digits acc [] = Some acc"
| "digits acc (c # cs) =
     (case digit_val c of
        Some d \<Rightarrow> digits (10 * acc + d) cs
      | None \<Rightarrow>
          (if c = Ch (CHR ''_'')
           then (case cs of
                   [] \<Rightarrow> None
                 | c' # cs' \<Rightarrow>
                     (case digit_val c' of
                        Some d \<Rightarrow> digits (10 * acc + d) cs'
                      | None \<Rightarrow> None))
           else None))"

definition str_strip_space :: "str \<Rightarrow> str" where
  "str_strip_space s = rev (dropWhile is_space (rev (dropWhile is_space s)))"

definition py_int :: "str \<Rightarrow> exn + int" where
  "py_int s =
     (let t = str_strip_space s;
          (sgn, u) = (case t of
                        [] \<Rightarrow> (1, [])
                      | c # cs \<Rightarrow>
                          if c = Ch (CHR ''+'') then (1, cs)
                          else if c = Ch (CHR ''-'') then (- 1, cs)
                          else (1, t))
      in case u of
           [] \<Rightarrow> Inl ValueError
         | c # cs \<Rightarrow>
             (case digit_val c of
                None \<Rightarrow> Inl ValueError
              | Some d \<Rightarrow>
                  (case digits d cs of
                     None \<Rightarrow> Inl ValueError
                   | Some n \<Rightarrow>
                       if max_str_digits < length (filter (\<lambda>x. digit_val x \<noteq> None) u)
                       then Inl ValueError
                       else Inr (sgn * int n))))"

text \<open>\<open>tuple(map(int, parts))\<close>: the first piece that is no integer raises.\<close>

fun map_int :: "str list \<Rightarrow> exn + int list" where
  "map_int [] = Inr []"
| "map_int (p # ps) =
     (case py_int p of
        Inl e \<Rightarrow> Inl e
      | Inr n \<Rightarrow> (case map_int ps of Inl e \<Rightarrow> Inl e | Inr ns \<Rightarrow> Inr (n # ns)))"

section \<open>\<open>CardanoNodeMonitor._parse_version\<close>\<close>

text \<open>The body of the \<open>try\<close> block; \<open>version_parts[0]\<close> raises \<open>IndexError\<close> on an
  empty list. The tuple of integers is a list, the pair is \<open>(main_version, is_pre)\<close>.\<close>

definition parse_version_try :: "str \<Rightarrow> exn + (int list \<times> bool)" where
  "parse_version_try tag =
     (let version = str_lstrip (lit ''v'') tag;
          version_parts = str_split (Ch (CHR ''-'')) version
      in case version_parts of
           [] \<Rightarrow> Inl IndexError
         | first # others \<Rightarrow>
             (case map_int (str_split (Ch (CHR ''.'')) first) of
                Inl e \<Rightarrow> Inl e
              | Inr main_version \<Rightarrow> Inr (main_version, 1 < length version_parts)))"

text \<open>\<open>except Exception: return ((0, 0, 0), False)\<close>.\<close>

definition parse_version :: "str \<Rightarrow> int list \<times> bool" where
  "parse_version tag =
     (case parse_version_try tag of
        Inl e \<Rightarrow> ([0, 0, 0], False)
      | Inr v \<Rightarrow> v)"

text \<open>
  The parser as section 4.3 of the specification words it: strip a leading literal \<open>v\<close>
  if present; split the rest on \<open>-\<close>; the first segment is dot-split into integers;
  any segment after the first marks a pre-release; on any parse failure the result is
  the zero-valued component with the flag false.
\<close>

definition parse_spec :: "str \<Rightarrow> int list \<times> bool" where
  "parse_spec tag =
     (let rest = (case tag of
                    [] \<Rightarrow> []
                  | c # cs \<Rightarrow> if c = Ch (CHR ''v'') then cs else tag)
      in case str_split (Ch (CHR ''-'')) rest of
           [] \<Rightarrow> ([0, 0, 0], False)
         | first # others \<Rightarrow>
             (let numbers = map py_int (str_split (Ch (CHR ''.'')) first)
              in if list_all (\<lambda>n. \<not> isl n) numbers
                 then (map projr numbers, others \<noteq> [])
                 else ([0, 0, 0], False)))"

section \<open>Release records, the environment and the state\<close>

text \<open>
  A value that is a string or \<open>null\<close>: in Python a \<open>str\<close> or \<open>None\<close>.
\<close>

type_synonym nullable = "str option"

text \<open>
  The feed's answer, as \<open>response.json()\<close> returns it: a dictionary in which each of the
  keys the program reads is present or not (the outer \<open>None\<close> is a missing key). Values
  that are present have the types of the schema of the releases API: \<open>tag_name\<close> and
  \<open>html_url\<close> are strings, \<open>name\<close> and \<open>body\<close> are strings or \<open>null\<close>, and
  \<open>assets\<close> is a list of dictionaries, each reduced to its \<open>name\<close> entry (a string,
  present or not).
\<close>

record release =
  tag_name :: "str option"
  name :: "nullable option"
  html_url :: "str option"
  body :: "nullable option"
  assets :: "str option list option"

text \<open>What an f-string inserts for a value: \<open>str(None)\<close> is \<open>None\<close>.\<close>

definition py_str :: "nullable \<Rightarrow> str" where
  "py_str v = (case v of None \<Rightarrow> lit ''None'' | Some s \<Rightarrow> s)"

text \<open>
  What the outside world does during one call. \<open>Raises e\<close>: \<open>requests.get\<close>,
  \<open>raise_for_status\<close> or \<open>response.json\<close> raises a \<open>RequestException\<close> with text \<open>e\<close>.
  \<open>NotObject\<close>: the body is JSON but no object, so that subscripting it with a string
  raises \<open>TypeError\<close>. \<open>Object r\<close>: the body is the object \<open>r\<close>.
\<close>

datatype feed = Raises str | NotObject | Object release

text \<open>The POST to the messaging endpoint: accepted, or \<open>requests.post\<close> or
  \<open>raise_for_status\<close> raises.\<close>

datatype post_outcome = Delivered | PostFails str

text \<open>Writing the cache file: done; \<open>open\<close> raises and the file stays as it was; or the
  file is opened, hence truncated, and \<open>json.dump\<close> raises before the document is
  complete.\<close>

datatype write_outcome = Written | OpenFails | DumpFails

text \<open>The cache file: missing; present but unreadable, no JSON or no JSON object
  (\<open>open\<close>, \<open>json.load\<close> or \<open>data.get\<close> raises); or a JSON object, whose entries are
  strings or \<open>null\<close> (\<open>None\<close>).\<close>

datatype disk_file = NoFile | Garbled | Doc "str \<rightharpoonup> str option"

text \<open>The monitor's attribute \<open>last_release\<close>, the cache file on disk, and the messages
  handed to \<open>requests.post\<close> so far, each with whether it was delivered.\<close>

record state =
  last_release :: "str option"
  cache_file :: disk_file
  telegram_posts :: "(str \<times> bool) list"

text \<open>What happens during one pass of the monitoring loop.\<close>

record env =
  on_get :: feed
  on_write :: write_outcome
  on_post :: post_outcome

definition getitem :: "str \<Rightarrow> 'a option \<Rightarrow> exn + 'a" where
  "getitem key v = (case v of None \<Rightarrow> Inl (KeyError key) | Some x \<Rightarrow> Inr x)"

section \<open>\<open>TelegramNotifier.send_message\<close>\<close>

definition requests_post :: "post_outcome \<Rightarrow> exn + unit" where
  "requests_post p = (case p of Delivered \<Rightarrow> Inr () | PostFails e \<Rightarrow> Inl (RequestException e))"

definition send_message :: "post_outcome \<Rightarrow> str \<Rightarrow> state \<Rightarrow> (exn + bool) \<times> state" where
  "send_message p message s =
     (case requests_post p of
        Inr u \<Rightarrow> (Inr True, s\<lparr>telegram_posts := telegram_posts s @ [(message, True)]\<rparr>)
      | Inl e \<Rightarrow> (Inr False, s\<lparr>telegram_posts := telegram_posts s @ [(message, False)]\<rparr>))"

section \<open>The version cache\<close>

definition load_cache_try :: "state \<Rightarrow> exn + state" where
  "load_cache_try s =
     (case cache_file s of
        NoFile \<Rightarrow> Inr s
      | Garbled \<Rightarrow> Inl OSError
      | Doc data \<Rightarrow>
          Inr (s\<lparr>last_release :=
                 (case data (lit ''last_release'') of None \<Rightarrow> None | Some v \<Rightarrow> v)\<rparr>))"

definition load_cache :: "state \<Rightarrow> state" where
  "load_cache s = (case load_cache_try s of Inl e \<Rightarrow> s | Inr s' \<Rightarrow> s')"

definition save_cache_try :: "write_outcome \<Rightarrow> state \<Rightarrow> (exn + unit) \<times> state" where
  "save_cache_try w s =
     (case w of
        OpenFails \<Rightarrow> (Inl OSError, s)
      | DumpFails \<Rightarrow> (Inl OSError, s\<lparr>cache_file := Garbled\<rparr>)
      | Written \<Rightarrow>
          (Inr (), s\<lparr>cache_file := Doc [lit ''last_release'' \<mapsto> last_release s]\<rparr>))"

definition save_cache :: "write_outcome \<Rightarrow> state \<Rightarrow> state" where
  "save_cache w s = snd (save_cache_try w s)"

text \<open>\<open>CardanoNodeMonitor.__init__\<close>: a new monitor starts with \<open>last_release = None\<close>
  and reads the cache file.\<close>

definition init :: "state \<Rightarrow> state" where
  "init s = load_cache (s\<lparr>last_release := None\<rparr>)"

text \<open>The version cache of section 4.1: \<open>save x\<close> stores the identifier and writes it,
  \<open>load\<close> reads the file and answers with the identifier then held.\<close>

definition save :: "write_outcome \<Rightarrow> str \<Rightarrow> state \<Rightarrow> state" where
  "save w x s = save_cache w (s\<lparr>last_release := Some x\<rparr>)"

definition load :: "state \<Rightarrow> str option" where
  "load s = last_release (load_cache s)"

section \<open>\<open>CardanoNodeMonitor.check_new_release\<close>\<close>

definition check_try :: "feed \<Rightarrow> write_outcome \<Rightarrow> state \<Rightarrow> (exn + release option) \<times> state" where
  "check_try f w s =
     (case f of
        Raises e \<Rightarrow> (Inl (RequestException e), s)
      | NotObject \<Rightarrow> (Inl TypeError, s)
      | Object latest_release \<Rightarrow>
          (case getitem (lit ''tag_name'') (tag_name latest_release) of
             Inl e \<Rightarrow> (Inl e, s)
           | Inr latest_tag \<Rightarrow>
               if last_release s = None
               then (Inr None, save_cache w (s\<lparr>last_release := Some latest_tag\<rparr>))
               else if Some latest_tag \<noteq> last_release s
               then (Inr (Some latest_release),
                     save_cache w (s\<lparr>last_release := Some latest_tag\<rparr>))
               else (Inr None, s)))"

definition check_new_release ::
  "feed \<Rightarrow> write_outcome \<Rightarrow> post_outcome \<Rightarrow> state \<Rightarrow> (exn + release option) \<times> state" where
  "check_new_release f w p s =
     (case check_try f w s of
        (Inl (RequestException e), s') \<Rightarrow>
          (Inr None,
           snd (send_message p
                  ([Sym Warning, Sym Selector] @ lit '' Error checking Cardano node releases: '' @ e)
                  s'))
      | r \<Rightarrow> r)"

section \<open>\<open>CardanoNodeMonitor.format_telegram_message\<close>\<close>

definition important_keywords :: "str list" where
  "important_keywords =
     [lit ''breaking change'', lit ''upgrade required'', lit ''mandatory upgrade'']"

text \<open>The line appended for a keyword found in the notes.\<close>

definition keyword_line :: "str \<Rightarrow> str" where
  "keyword_line keyword =
     [Ch (CHR ''\<newline>''), Sym Warning, Sym Selector]
       @ lit '' <b>IMPORTANT:</b> This release contains a '' @ keyword @ lit ''!''"

text \<open>\<open>for asset in release_info['assets']\<close>: one line for each asset, \<open>KeyError\<close> at
  the first asset without a \<open>name\<close>.\<close>

fun asset_loop :: "str option list \<Rightarrow> str list \<Rightarrow> exn + str list" where
  "asset_loop [] message = Inr message"
| "asset_loop (asset # rest) message =
     (case getitem (lit ''name'') asset of
        Inl e \<Rightarrow> Inl e
      | Inr asset_name \<Rightarrow> asset_loop rest (message @ [[Sym Bullet] @ lit '' '' @ asset_name]))"

text \<open>\<open>for keyword in important_keywords\<close>; \<open>keyword in release_notes_lower\<close> is
  the test for a contiguous occurrence.\<close>

fun keyword_loop :: "str list \<Rightarrow> str \<Rightarrow> str list \<Rightarrow> str list" where
  "keyword_loop [] release_notes_lower message = message"
| "keyword_loop (keyword # rest) release_notes_lower message =
     keyword_loop rest release_notes_lower
       (if sublist keyword release_notes_lower
        then message @ [keyword_line keyword] else message)"

text \<open>The list \<open>message\<close> as it stands at the \<open>return\<close>. On a \<open>body\<close> that is
  \<open>null\<close>, \<open>len(notes)\<close> raises \<open>TypeError\<close>.\<close>

definition message_lines :: "release \<Rightarrow> exn + str list" where
  "message_lines release_info =
     (case getitem (lit ''tag_name'') (tag_name release_info) of
        Inl e \<Rightarrow> Inl e
      | Inr tag \<Rightarrow>
     (let version_info = parse_version tag
      in case getitem (lit ''name'') (name release_info) of
        Inl e \<Rightarrow> Inl e
      | Inr release_name \<Rightarrow>
     (let message =
            [[Sym Bell] @ lit '' <b>New Cardano Node Release!</b>'',
             lit ''\<newline><b>Version:</b> '' @ tag,
             lit ''<b>Name:</b> '' @ py_str release_name];
          message =
            (if snd version_info
             then message
                    @ [[Ch (CHR ''\<newline>''), Sym Warning, Sym Selector]
                         @ lit '' <b>Note:</b> This is a pre-release version'']
             else message)
      in case getitem (lit ''html_url'') (html_url release_info) of
        Inl e \<Rightarrow> Inl e
      | Inr url \<Rightarrow>
     (let message = message @ [lit ''\<newline><b>Release URL:</b> '' @ url]
      in case (case assets release_info of
                 None \<Rightarrow> Inr message
               | Some [] \<Rightarrow> Inr message
               | Some (a # as) \<Rightarrow>
                   asset_loop (a # as) (message @ [lit ''\<newline><b>Available Downloads:</b>''])) of
        Inl e \<Rightarrow> Inl e
      | Inr message \<Rightarrow>
     (case getitem (lit ''body'') (body release_info) of
        Inl e \<Rightarrow> Inl e
      | Inr release_body \<Rightarrow>
     (case release_body of
        None \<Rightarrow> Inl TypeError
      | Some notes_text \<Rightarrow>
     (let notes = (if length notes_text > 500
                   then take 497 notes_text @ lit ''...'' else notes_text);
          message = message @ [lit ''\<newline><b>Release Notes:</b>\<newline>'' @ notes];
          release_notes_lower = str_lower notes_text
      in Inr (keyword_loop important_keywords release_notes_lower message))))))))"

definition format_telegram_message :: "release \<Rightarrow> exn + str" where
  "format_telegram_message release_info =
     (case message_lines release_info of
        Inl e \<Rightarrow> Inl e
      | Inr message \<Rightarrow> Inr (str_join (lit ''\<newline>'') message))"

section \<open>\<open>CardanoNodeMonitor.notify\<close> and the monitoring loop\<close>




text \<open>A sequence of calls of \<open>check_new_release\<close> on one monitor: the results in order
  and the state after the last call.\<close>

fun check_calls :: "env list \<Rightarrow> state \<Rightarrow> (exn + release option) list \<times> state" where
  "check_calls [] s = ([], s)"
| "check_calls (e # es) s =
     (case check_new_release (on_get e) (on_write e) (on_post e) s of
        (r, s') \<Rightarrow> (case check_calls es s' of (rs, s'') \<Rightarrow> (r # rs, s'')))"

text \<open>The records returned by a sequence of calls, that is, the releases handed to
  \<open>notify\<close>.\<close>

fun returned :: "(exn + release option) list \<Rightarrow> release list" where
  "returned [] = []"
| "returned (Inr (Some r) # rs) = r # returned rs"
| "returned (x # rs) = returned rs"

text \<open>The identifier a restart would start from: what a new monitor reads from the
  cache file.\<close>

definition persisted :: "state \<Rightarrow> str option" where
  "persisted s = last_release (init s)"

section \<open>Notions used in the statements\<close>

text \<open>A keyword occurs in a text up to case: at some position the next characters of
  the text, as many as the keyword has, equal the keyword once both are lower-cased.\<close>

fun occurs_ci :: "str \<Rightarrow> str \<Rightarrow> bool" where
  "occurs_ci keyword [] = (keyword = [])"
| "occurs_ci keyword (c # cs) =
     (str_lower (take (length keyword) (c # cs)) = str_lower keyword \<or> occurs_ci keyword cs)"

text \<open>A line that is no keyword line.\<close>

definition plain :: "str \<Rightarrow> bool" where
  "plain l = (\<forall>k. l \<noteq> keyword_line k)"

text \<open>A record that holds every key the formatter reads, with a \<open>body\<close> that is a
  string.\<close>

definition complete :: "release \<Rightarrow> bool" where
  "complete r =
     (tag_name r \<noteq> None \<and> name r \<noteq> None \<and> html_url r \<noteq> None
      \<and> (case body r of None \<Rightarrow> False | Some None \<Rightarrow> False | Some (Some b) \<Rightarrow> True)
      \<and> (case assets r of None \<Rightarrow> True | Some as \<Rightarrow> list_all (\<lambda>a. a \<noteq> None) as))"



text \<open>A successful call: the poll answers with an object holding \<open>tag_name\<close>.\<close>

definition successful :: "env \<Rightarrow> bool" where
  "successful e = (case on_get e of Object r \<Rightarrow> tag_name r \<noteq> None | _ \<Rightarrow> False)"

text \<open>The identifier in place before any record is returned: the one the monitor
  starts with or, on a first run, the first one observed.\<close>

definition seeded :: "env list \<Rightarrow> state \<Rightarrow> str option" where
  "seeded es s =
     (case last_release s of
        Some x \<Rightarrow> Some x
      | None \<Rightarrow>
          (case es of
             [] \<Rightarrow> None
           | e # es' \<Rightarrow> (case on_get e of Object r \<Rightarrow> tag_name r | _ \<Rightarrow> None)))"

subsection \<open>Concrete inputs\<close>

definition release_a :: release where
  "release_a =
     \<lparr>tag_name = Some (lit ''10.1.3''),
      name = Some (Some (lit ''Cardano Node 10.1.3'')),
      html_url = Some (lit ''https://github.com/IntersectMBO/cardano-node/releases/tag/10.1.3''),
      body = Some (Some (lit ''Bug fixes.'')),
      assets = Some [Some (lit ''cardano-node-10.1.3-linux.tar.gz'')]\<rparr>"

definition release_b :: release where
  "release_b =
     \<lparr>tag_name = Some (lit ''10.1.4''),
      name = Some (Some (lit ''Cardano Node 10.1.4'')),
      html_url = Some (lit ''https://github.com/IntersectMBO/cardano-node/releases/tag/10.1.4''),
      body = Some (Some (lit ''Mandatory Upgrade before the hard fork.'')),
      assets = Some []\<rparr>"

definition release_long :: release where
  "release_long =
     \<lparr>tag_name = Some (lit ''10.2.0-pre''),
      name = Some (Some (lit ''Cardano Node 10.2.0'')),
      html_url = Some (lit ''https://github.com/IntersectMBO/cardano-node/releases/tag/10.2.0-pre''),
      body = Some (Some (replicate 600 (Ch (CHR ''x'')))),
      assets = None\<rparr>"



definition state_new :: state where
  "state_new = \<lparr>last_release = None, cache_file = NoFile, telegram_posts = []\<rparr>"

definition state_a :: state where
  "state_a =
     \<lparr>last_release = Some (lit ''10.1.3''),
      cache_file = Doc [lit ''last_release'' \<mapsto> Some (lit ''10.1.3'')],
      telegram_posts = []\<rparr>"

definition calls_abb :: "env list" where
  "calls_abb =
     [\<lparr>on_get = Object release_a, on_write = Written, on_post = Delivered\<rparr>,
      \<lparr>on_get = Object release_b, on_write = Written, on_post = PostFails (lit ''timeout'')\<rparr>,
      \<lparr>on_get = Object release_b, on_write = Written, on_post = Delivered\<rparr>]"

section \<open>Facts about the cache and about a single check\<close>

lemma persisted_save_cache_written: "persisted (save_cache Written s) = last_release s"
  by (simp add: persisted_def init_def load_cache_def load_cache_try_def save_cache_def
      save_cache_try_def)

lemma persisted_cache_file: "cache_file s = cache_file s' \<Longrightarrow> persisted s = persisted s'"
  by (simp add: persisted_def init_def load_cache_def load_cache_try_def
      split: disk_file.splits)

lemma last_release_save_cache: "last_release (save_cache w s) = last_release s"
  by (cases w) (simp_all add: save_cache_def save_cache_try_def)

lemma check_object:
  "tag_name r = Some t \<Longrightarrow>
   check_new_release (Object r) w p s =
     (if last_release s = None
      then (Inr None, save_cache w (s\<lparr>last_release := Some t\<rparr>))
      else if Some t \<noteq> last_release s
      then (Inr (Some r), save_cache w (s\<lparr>last_release := Some t\<rparr>))
      else (Inr None, s))"
  by (simp add: check_new_release_def check_try_def getitem_def)

lemma check_raises:
  "check_new_release (Raises e) w p s =
     (Inr None,
      s\<lparr>telegram_posts := telegram_posts s @
         [([Sym Warning, Sym Selector] @ lit '' Error checking Cardano node releases: '' @ e,
           p = Delivered)]\<rparr>)"
  by (cases p)
    (simp_all add: check_new_release_def check_try_def send_message_def requests_post_def)


section \<open>Release detection\<close>







text \<open>
  Claim C3. When the feed request fails, the call returns nothing, one warning message
  is handed to the notifier (delivered or not), and the identifier in memory, the cache
  file and the persisted identifier are what they were before the call.
\<close>

theorem check_new_release_feed_failure:
  "fst (check_new_release (Raises e) w p s) = Inr None
   \<and> telegram_posts (snd (check_new_release (Raises e) w p s))
       = telegram_posts s
           @ [([Sym Warning, Sym Selector] @ lit '' Error checking Cardano node releases: '' @ e,
               p = Delivered)]
   \<and> last_release (snd (check_new_release (Raises e) w p s)) = last_release s
   \<and> cache_file (snd (check_new_release (Raises e) w p s)) = cache_file s
   \<and> persisted (snd (check_new_release (Raises e) w p s)) = persisted s"
proof -
  have "cache_file (snd (check_new_release (Raises e) w p s)) = cache_file s"
    by (simp add: check_raises)
  then have "persisted (snd (check_new_release (Raises e) w p s)) = persisted s"
    by (rule persisted_cache_file)
  then show ?thesis
    by (simp add: check_raises)
qed

theorem check_new_release_feed_failure_witness:
  "fst (check_new_release (Raises (lit ''timed out'')) Written (PostFails (lit ''timed out''))
          state_a) = Inr None
   \<and> telegram_posts (snd (check_new_release (Raises (lit ''timed out'')) Written
          (PostFails (lit ''timed out'')) state_a))
       = [([Sym Warning, Sym Selector]
             @ lit '' Error checking Cardano node releases: timed out'', False)]
   \<and> last_release (snd (check_new_release (Raises (lit ''timed out'')) Written
          (PostFails (lit ''timed out'')) state_a)) = Some (lit ''10.1.3'')
   \<and> persisted (snd (check_new_release (Raises (lit ''timed out'')) Written
          (PostFails (lit ''timed out'')) state_a)) = Some (lit ''10.1.3'')"
  using check_new_release_feed_failure
    [of "lit ''timed out''" Written "PostFails (lit ''timed out'')" state_a]
  by (simp add: state_a_def persisted_def init_def load_cache_def load_cache_try_def)

text \<open>
  Claim C8, amended. When the cache write succeeds, \<open>save x\<close> followed by \<open>load\<close>
  returns \<open>x\<close>, for every identifier \<open>x\<close> and so for every non-empty one, both on
  the same monitor and on a new monitor built on the same cache file.
\<close>

theorem save_load_round_trip:
  "load (save Written x s) = Some x
   \<and> last_release (init (save Written x s)) = Some x"
  by (simp add: load_def save_def init_def load_cache_def load_cache_try_def save_cache_def
      save_cache_try_def)

theorem save_load_round_trip_witness:
  "load (save Written (lit ''10.1.4'') state_a) = Some (lit ''10.1.4'')
   \<and> last_release (init (save Written (lit ''10.1.4'') state_a)) = Some (lit ''10.1.4'')"
  using save_load_round_trip [of "lit ''10.1.4''" state_a]
  by simp

text \<open>The round trip as first stated fails when the file cannot be opened for writing:
  \<open>load\<close> then answers with what the file held before.\<close>

theorem save_load_round_trip_counterexample:
  "load (save OpenFails (lit ''10.1.4'') state_a) = Some (lit ''10.1.3'')
   \<and> last_release (init (save OpenFails (lit ''10.1.4'') state_a)) = Some (lit ''10.1.3'')
   \<and> lit ''10.1.4'' \<noteq> lit ''10.1.3''"
  by (simp add: load_def save_def init_def load_cache_def load_cache_try_def save_cache_def
      save_cache_try_def state_a_def)

section \<open>Sequences of checks\<close>

lemma successfulE:
  assumes "successful e"
  obtains r t where "on_get e = Object r" and "tag_name r = Some t"
  using assms by (auto simp: successful_def split: feed.splits)

lemma check_calls_step:
  "check_new_release (on_get e) (on_write e) (on_post e) s = (r, s') \<Longrightarrow>
   check_calls (e # es) s = (r # fst (check_calls es s'), snd (check_calls es s'))"
  by (simp split: prod.splits)

lemma calls_known:
  assumes "last_release s = Some x" and "\<forall>e\<in>set es. successful e"
  shows "distinct_adj (Some x # map tag_name (returned (fst (check_calls es s))))
       \<and> last_release (snd (check_calls es s))
           = last (Some x # map tag_name (returned (fst (check_calls es s))))"
  using assms
proof (induction es arbitrary: s x)
  case Nil
  then show ?case by simp
next
  case (Cons e es)
  from Cons.prems(2) have "successful e" by simp
  then obtain r t where e: "on_get e = Object r" "tag_name r = Some t"
    by (rule successfulE)
  show ?case
  proof (cases "t = x")
    case True
    with e Cons.prems(1)
    have step: "check_new_release (on_get e) (on_write e) (on_post e) s = (Inr None, s)"
      by (simp add: check_object)
    from Cons.IH[OF Cons.prems(1)] Cons.prems(2) show ?thesis
      by (simp add: check_calls_step[OF step] del: check_calls.simps)
  next
    case False
    let ?s' = "save_cache (on_write e) (s\<lparr>last_release := Some t\<rparr>)"
    from False e Cons.prems(1)
    have step: "check_new_release (on_get e) (on_write e) (on_post e) s = (Inr (Some r), ?s')"
      by (simp add: check_object)
    have "last_release ?s' = Some t"
      by (simp add: last_release_save_cache)
    from Cons.IH[OF this] Cons.prems(2) False e(2) show ?thesis
      by (simp add: check_calls_step[OF step] del: check_calls.simps)
  qed
qed

lemma calls_persisted:
  assumes "persisted s = last_release s"
    and "\<forall>e\<in>set es. successful e \<and> on_write e = Written"
  shows "persisted (snd (check_calls es s)) = last_release (snd (check_calls es s))"
  using assms
proof (induction es arbitrary: s)
  case Nil
  then show ?case by simp
next
  case (Cons e es)
  from Cons.prems(2) have "successful e" and w: "on_write e = Written" by simp_all
  then obtain r t where e: "on_get e = Object r" "tag_name r = Some t"
    by (auto elim: successfulE)
  let ?s' = "snd (check_new_release (on_get e) (on_write e) (on_post e) s)"
  have "persisted ?s' = last_release ?s'"
    using e w Cons.prems(1)
    by (simp add: check_object persisted_save_cache_written last_release_save_cache)
  from Cons.IH[OF this] Cons.prems(2) show ?case
    by (simp add: check_calls_step[OF surjective_pairing] del: check_calls.simps)
qed

text \<open>
  Claim C4. Over every sequence of successful calls, from any starting state: the
  identifier in memory is the \<open>tag_name\<close> of the record returned last or, when none was
  returned, the identifier the monitor started with or seeded on its first run; no
  returned record carries the identifier in place just before it, be that the seed or
  the \<open>tag_name\<close> of the record returned before; and when the cache writes succeed and
  the cache file agreed with the memory at the start, it agrees at the end.
\<close>

theorem check_calls_invariant:
  assumes "\<forall>e\<in>set es. successful e"
  shows "last_release (snd (check_calls es s))
           = last (seeded es s # map tag_name (returned (fst (check_calls es s))))
       \<and> distinct_adj (seeded es s # map tag_name (returned (fst (check_calls es s))))
       \<and> ((\<forall>e\<in>set es. on_write e = Written) \<and> persisted s = last_release s
            \<longrightarrow> persisted (snd (check_calls es s)) = last_release (snd (check_calls es s)))"
proof -
  have third: "(\<forall>e\<in>set es. on_write e = Written) \<and> persisted s = last_release s
            \<longrightarrow> persisted (snd (check_calls es s)) = last_release (snd (check_calls es s))"
    using assms calls_persisted[of s es] by simp
  have first: "last_release (snd (check_calls es s))
           = last (seeded es s # map tag_name (returned (fst (check_calls es s))))
       \<and> distinct_adj (seeded es s # map tag_name (returned (fst (check_calls es s))))"
  proof (cases "last_release s")
    case (Some x)
    then have "seeded es s = Some x"
      by (simp add: seeded_def)
    with calls_known[OF Some assms] show ?thesis by simp
  next
    case None
    show ?thesis
    proof (cases es)
      case Nil
      with None show ?thesis by (simp add: seeded_def)
    next
      case (Cons e es')
      with assms have "successful e" and rest: "\<forall>e\<in>set es'. successful e" by simp_all
      then obtain r t where e: "on_get e = Object r" "tag_name r = Some t"
        by (auto elim: successfulE)
      let ?s' = "save_cache (on_write e) (s\<lparr>last_release := Some t\<rparr>)"
      have step: "check_new_release (on_get e) (on_write e) (on_post e) s = (Inr None, ?s')"
        using e None by (simp add: check_object)
      have seed: "seeded es s = Some t"
        using None Cons e by (simp add: seeded_def)
      have "last_release ?s' = Some t"
        by (simp add: last_release_save_cache)
      from calls_known[OF this rest] seed Cons show ?thesis
        by (simp add: check_calls_step[OF step] del: check_calls.simps)
    qed
  qed
  from first third show ?thesis by blast
qed

theorem check_calls_invariant_witness:
  "list_all successful calls_abb
   \<and> list_all (\<lambda>e. on_write e = Written) calls_abb
   \<and> persisted state_new = last_release state_new
   \<and> fst (check_calls calls_abb state_new) = [Inr None, Inr (Some release_b), Inr None]
   \<and> seeded calls_abb state_new = Some (lit ''10.1.3'')
   \<and> last_release (snd (check_calls calls_abb state_new)) = Some (lit ''10.1.4'')
   \<and> persisted (snd (check_calls calls_abb state_new)) = Some (lit ''10.1.4'')
   \<and> distinct_adj [Some (lit ''10.1.3''), Some (lit ''10.1.4'')]"
proof -
  have ok: "\<forall>e\<in>set calls_abb. successful e"
    by (simp add: calls_abb_def successful_def release_a_def release_b_def)
  have written: "\<forall>e\<in>set calls_abb. on_write e = Written"
    by (simp add: calls_abb_def)
  have start: "persisted state_new = last_release state_new"
    by (simp add: state_new_def persisted_def init_def load_cache_def load_cache_try_def)
  have results: "fst (check_calls calls_abb state_new) = [Inr None, Inr (Some release_b), Inr None]"
    by (simp add: calls_abb_def state_new_def release_a_def release_b_def check_object
        last_release_save_cache split: prod.splits)
  have seed: "seeded calls_abb state_new = Some (lit ''10.1.3'')"
    by (simp add: seeded_def calls_abb_def state_new_def release_a_def)
  from check_calls_invariant[OF ok, of state_new] written start results seed ok show ?thesis
    by (simp add: release_b_def list_all_iff)
qed

section \<open>Notification and the loop\<close>




lemma asset_loop_total:
  "list_all (\<lambda>a. a \<noteq> None) as \<Longrightarrow> \<exists>m. asset_loop as message = Inr m"
  by (induction as arbitrary: message) (auto simp: getitem_def)

lemma message_lines_total:
  assumes "complete r"
  shows "\<exists>m. message_lines r = Inr m"
proof -
  from assms obtain t n u b
    where f: "tag_name r = Some t" "name r = Some n" "html_url r = Some u"
      "body r = Some (Some b)"
    by (auto simp: complete_def split: option.splits)
  define m2 where "m2 =
    (if snd (parse_version t)
     then [[Sym Bell] @ lit '' <b>New Cardano Node Release!</b>'',
           lit ''\<newline><b>Version:</b> '' @ t,
           lit ''<b>Name:</b> '' @ py_str n]
            @ [[Ch (CHR ''\<newline>''), Sym Warning, Sym Selector]
                 @ lit '' <b>Note:</b> This is a pre-release version'']
     else [[Sym Bell] @ lit '' <b>New Cardano Node Release!</b>'',
           lit ''\<newline><b>Version:</b> '' @ t,
           lit ''<b>Name:</b> '' @ py_str n])
      @ [lit ''\<newline><b>Release URL:</b> '' @ u]"
  have "\<exists>m. (case assets r of
                 None \<Rightarrow> Inr m2
               | Some [] \<Rightarrow> Inr m2
               | Some (a # as) \<Rightarrow>
                   asset_loop (a # as) (m2 @ [lit ''\<newline><b>Available Downloads:</b>''])) = Inr m"
  proof (cases "assets r")
    case None
    then show ?thesis by simp
  next
    case (Some as)
    show ?thesis
    proof (cases as)
      case Nil
      with Some show ?thesis by simp
    next
      case (Cons a as')
      with Some assms have "list_all (\<lambda>a. a \<noteq> None) (a # as')"
        by (simp add: complete_def)
      from asset_loop_total[OF this] Some Cons show ?thesis
        by (simp del: asset_loop.simps)
    qed
  qed
  then obtain m where "(case assets r of
                 None \<Rightarrow> Inr m2
               | Some [] \<Rightarrow> Inr m2
               | Some (a # as) \<Rightarrow>
                   asset_loop (a # as) (m2 @ [lit ''\<newline><b>Available Downloads:</b>''])) = Inr m" ..
  then show ?thesis
    unfolding message_lines_def getitem_def f Let_def m2_def option.case sum.case
    by simp
qed










section \<open>The version parser\<close>

lemma str_split_nonempty: "str_split sep s \<noteq> []"
  by (induction s) (auto split: list.splits)

lemma map_int_Inr:
  "list_all (\<lambda>p. \<not> isl (py_int p)) ps \<Longrightarrow> map_int ps = Inr (map (\<lambda>p. projr (py_int p)) ps)"
  by (induction ps) (auto split: sum.splits)

lemma map_int_Inl:
  "\<not> list_all (\<lambda>p. \<not> isl (py_int p)) ps \<Longrightarrow> isl (map_int ps)"
  by (induction ps) (auto split: sum.splits)

lemma str_lstrip_v: "str_lstrip [Ch (CHR ''v'')] tag = dropWhile (\<lambda>c. c = Ch (CHR ''v'')) tag"
  by (simp add: str_lstrip_def)

lemma parse_version_general:
  "\<exists>first others.
      str_split (Ch (CHR ''-'')) (dropWhile (\<lambda>c. c = Ch (CHR ''v'')) tag) = first # others
    \<and> parse_version tag =
        (if \<forall>p\<in>set (str_split (Ch (CHR ''.'')) first). \<not> isl (py_int p)
         then (map (\<lambda>p. projr (py_int p)) (str_split (Ch (CHR ''.'')) first), others \<noteq> [])
         else ([0, 0, 0], False))"
proof -
  obtain first others
    where sp: "str_split (Ch (CHR ''-'')) (dropWhile (\<lambda>c. c = Ch (CHR ''v'')) tag) = first # others"
    using str_split_nonempty by (meson list.exhaust)
  let ?ps = "str_split (Ch (CHR ''.'')) first"
  show ?thesis
  proof (cases "list_all (\<lambda>p. \<not> isl (py_int p)) ?ps")
    case True
    from map_int_Inr[OF True] sp True show ?thesis
      by (simp add: parse_version_def parse_version_try_def str_lstrip_v list_all_iff Let_def)
  next
    case False
    from map_int_Inl[OF False] sp False show ?thesis
      by (auto simp: parse_version_def parse_version_try_def str_lstrip_v list_all_iff Let_def
          split: sum.splits)
  qed
qed

text \<open>A piece of more than \<open>max_str_digits\<close> digits is no integer for \<open>int\<close>, and
  the parser falls back.\<close>

lemma str_split_no_sep: "sep \<notin> set s \<Longrightarrow> str_split sep s = [s]"
  by (induction s) auto

lemma digit_not_space: "digit_val c \<noteq> None \<Longrightarrow> \<not> is_space c"
  by (cases c) (auto simp: digit_val_def is_space_def Let_def split: if_splits)

lemma strip_digits:
  assumes "\<forall>c\<in>set s. digit_val c \<noteq> None"
  shows "str_strip_space s = s"
proof -
  have ns: "\<not> is_space c" if "c \<in> set s" for c
    using assms that digit_not_space by blast
  have keep: "dropWhile is_space xs = xs" if "set xs \<subseteq> set s" for xs
    using ns that by (cases xs) auto
  have "dropWhile is_space s = s"
    by (rule keep) simp
  moreover have "dropWhile is_space (rev s) = rev s"
    by (rule keep) simp
  ultimately show ?thesis by (simp add: str_strip_space_def)
qed

lemma py_int_digit_limit:
  assumes "\<forall>c\<in>set s. digit_val c \<noteq> None" and "max_str_digits < length s"
  shows "py_int s = Inl ValueError"
proof -
  from assms(2) obtain c cs where s: "s = c # cs" by (cases s) auto
  with assms(1) obtain d where c: "digit_val c = Some d" by auto
  then have ns: "c \<noteq> Ch (CHR ''+'')" "c \<noteq> Ch (CHR ''-'')"
    by (auto simp: digit_val_def)
  have all: "filter (\<lambda>x. digit_val x \<noteq> None) (c # cs) = c # cs"
    using assms(1) s by (simp add: filter_id_conv)
  have strip: "str_strip_space (c # cs) = c # cs"
    using strip_digits[OF assms(1)] s by simp
  have long: "max_str_digits < length (c # cs)"
    using assms(2) s by simp
  show ?thesis
    unfolding py_int_def s strip Let_def
    using c ns long
    by (simp only: list.case if_False prod.case option.case all if_True split: option.split)
      simp
qed

lemma parse_version_digit_limit:
  assumes "max_str_digits < n"
  shows "parse_version (replicate n (Ch (CHR ''1''))) = ([0, 0, 0], False)"
proof -
  define s where "s = replicate n (Ch (CHR ''1''))"
  have d: "\<forall>c\<in>set s. digit_val c \<noteq> None"
    by (simp add: s_def digit_val_def)
  have len: "max_str_digits < length s"
    using assms by (simp add: s_def)
  have "dropWhile (\<lambda>c. c \<in> set [Ch (CHR ''v'')]) s = s"
    by (cases n) (simp_all add: s_def)
  then have strip: "str_lstrip (lit ''v'') s = s"
    by (simp add: str_lstrip_def)
  have dash: "str_split (Ch (CHR ''-'')) s = [s]"
    by (rule str_split_no_sep) (simp add: s_def)
  have dot: "str_split (Ch (CHR ''.'')) s = [s]"
    by (rule str_split_no_sep) (simp add: s_def)
  have "py_int s = Inl ValueError"
    using d len by (rule py_int_digit_limit)
  then have "parse_version s = ([0, 0, 0], False)"
    unfolding parse_version_def parse_version_try_def strip Let_def dash
    by (simp add: dot)
  then show ?thesis by (simp only: s_def)
qed

text \<open>
  Claim C5, amended. For every tag string, the parser strips every leading \<open>v\<close> (not
  only one), splits the rest on \<open>-\<close>, and dot-splits the first segment; when each
  piece is an integer for \<open>int\<close> (which takes at most \<open>max_str_digits\<close> digits),
  the integers are the numeric components and
  the pre-release flag is set exactly when a segment after the first exists; otherwise
  the result is \<open>(0, 0, 0)\<close> with the flag false. In particular \<open>v1.2.3\<close> gives
  \<open>((1, 2, 3), false)\<close>, \<open>v1.2.3-rc1\<close> gives \<open>((1, 2, 3), true)\<close> and
  \<open>not-a-version\<close> gives \<open>((0, 0, 0), false)\<close>.
\<close>

theorem parse_version_strips_every_v:
  "(\<exists>first others.
      str_split (Ch (CHR ''-'')) (dropWhile (\<lambda>c. c = Ch (CHR ''v'')) tag) = first # others
    \<and> parse_version tag =
        (if \<forall>p\<in>set (str_split (Ch (CHR ''.'')) first). \<not> isl (py_int p)
         then (map (\<lambda>p. projr (py_int p)) (str_split (Ch (CHR ''.'')) first), others \<noteq> [])
         else ([0, 0, 0], False)))
   \<and> parse_version (lit ''v1.2.3'') = ([1, 2, 3], False)
   \<and> parse_version (lit ''v1.2.3-rc1'') = ([1, 2, 3], True)
   \<and> parse_version (lit ''not-a-version'') = ([0, 0, 0], False)"
proof -
  have "parse_version (lit ''v1.2.3'') = ([1, 2, 3], False)"
    by code_simp
  moreover have "parse_version (lit ''v1.2.3-rc1'') = ([1, 2, 3], True)"
    by code_simp
  moreover have "parse_version (lit ''not-a-version'') = ([0, 0, 0], False)"
    by code_simp
  ultimately show ?thesis
    using parse_version_general[of tag] by blast
qed

theorem parse_version_strips_every_v_witness:
  "str_split (Ch (CHR ''-'')) (dropWhile (\<lambda>c. c = Ch (CHR ''v'')) (lit ''vv10.1.4-pre''))
     = [lit ''10.1.4'', lit ''pre'']
   \<and> list_all (\<lambda>p. \<not> isl (py_int p)) (str_split (Ch (CHR ''.'')) (lit ''10.1.4''))
   \<and> map (\<lambda>p. projr (py_int p)) (str_split (Ch (CHR ''.'')) (lit ''10.1.4'')) = [10, 1, 4]
   \<and> parse_version (lit ''vv10.1.4-pre'') = ([10, 1, 4], True)"
proof -
  have sp: "str_split (Ch (CHR ''-'')) (dropWhile (\<lambda>c. c = Ch (CHR ''v'')) (lit ''vv10.1.4-pre''))
     = [lit ''10.1.4'', lit ''pre'']"
    by simp
  have ints: "map py_int (str_split (Ch (CHR ''.'')) (lit ''10.1.4'')) = [Inr 10, Inr 1, Inr 4]"
    by code_simp
  then have ok: "list_all (\<lambda>p. \<not> isl (py_int p)) (str_split (Ch (CHR ''.'')) (lit ''10.1.4''))"
    and vals: "map (\<lambda>p. projr (py_int p)) (str_split (Ch (CHR ''.'')) (lit ''10.1.4'')) = [10, 1, 4]"
    by (simp_all add: list_all_iff)
  from parse_version_strips_every_v[of "lit ''vv10.1.4-pre''"]
  obtain first others
    where a: "str_split (Ch (CHR ''-'')) (dropWhile (\<lambda>c. c = Ch (CHR ''v'')) (lit ''vv10.1.4-pre''))
          = first # others"
      and b: "parse_version (lit ''vv10.1.4-pre'') =
        (if \<forall>p\<in>set (str_split (Ch (CHR ''.'')) first). \<not> isl (py_int p)
         then (map (\<lambda>p. projr (py_int p)) (str_split (Ch (CHR ''.'')) first), others \<noteq> [])
         else ([0, 0, 0], False))"
    by blast
  from a sp have "first = lit ''10.1.4''" and "others = [lit ''pre'']"
    by simp_all
  with b ok vals have "parse_version (lit ''vv10.1.4-pre'') = ([10, 1, 4], True)"
    by (simp only: list_all_iff if_True) simp
  with sp ok vals show ?thesis
    by (simp only: simp_thms)
qed

text \<open>The claim as first stated, with one leading \<open>v\<close> stripped, fails on a tag that
  starts with two: the parser reads the version where the wording of the specification
  gives the fallback.\<close>

theorem parse_version_strips_every_v_counterexample:
  "parse_version (lit ''vv1.2.3'') = ([1, 2, 3], False)
   \<and> parse_spec (lit ''vv1.2.3'') = ([0, 0, 0], False)
   \<and> parse_version (lit ''vv1.2.3'') \<noteq> parse_spec (lit ''vv1.2.3'')"
proof -
  have a: "parse_version (lit ''vv1.2.3'') = ([1, 2, 3], False)"
    by code_simp
  have b: "parse_spec (lit ''vv1.2.3'') = ([0, 0, 0], False)"
    by code_simp
  from a b show ?thesis by simp
qed

section \<open>The message formatter\<close>

lemma prefix_iff_take: "prefix xs ys \<longleftrightarrow> take (length xs) ys = xs"
  by (metis append_eq_conv_conj prefix_def take_is_prefix)

lemma sublist_lower:
  "str_lower k = k \<Longrightarrow> sublist k (str_lower t) \<longleftrightarrow> occurs_ci k t"
proof (induction t)
  case Nil
  then show ?case by (simp add: str_lower_def)
next
  case (Cons c cs)
  have "take (length k) (str_lower (c # cs)) = str_lower (take (length k) (c # cs))"
    unfolding str_lower_def by (rule take_map)
  with Cons.prems
  have "prefix k (str_lower (c # cs)) \<longleftrightarrow> str_lower (take (length k) (c # cs)) = str_lower k"
    by (simp only: prefix_iff_take)
  moreover have "str_lower (c # cs) = lower_char c # str_lower cs"
    by (simp add: str_lower_def)
  ultimately show ?case
    using Cons by (simp only: sublist_Cons_right occurs_ci.simps)
qed

lemma keywords_lower: "k \<in> set important_keywords \<Longrightarrow> str_lower k = k"
  by (auto simp: important_keywords_def str_lower_def lower_char_def)

lemma matched_keywords:
  "filter (\<lambda>k. sublist k (str_lower notes)) important_keywords
     = filter (\<lambda>k. occurs_ci k notes) important_keywords"
  by (rule filter_cong) (simp_all add: sublist_lower keywords_lower)


lemma str_join_Cons: "str_join sep (p # ps) = p @ concat (map (\<lambda>q. sep @ q) ps)"
  by (induction ps arbitrary: p) simp_all

lemma str_join_append:
  "xs \<noteq> [] \<Longrightarrow> str_join sep (xs @ ys) = str_join sep xs @ concat (map (\<lambda>q. sep @ q) ys)"
  by (cases xs) (simp_all add: str_join_Cons)


lemma keyword_loop_eq:
  "keyword_loop ks low message = message @ map keyword_line (filter (\<lambda>k. sublist k low) ks)"
  by (induction ks arbitrary: message) simp_all

lemma asset_loop_shape:
  "asset_loop as message = Inr message' \<Longrightarrow>
   \<exists>extra. message' = message @ extra \<and> (\<forall>l\<in>set extra. \<exists>rest. l = Sym Bullet # rest)"
proof (induction as arbitrary: message)
  case Nil
  then show ?case by simp
next
  case (Cons a as)
  then show ?case
    by (cases a) (fastforce simp: getitem_def)+
qed

lemma plain_first: "c \<noteq> Ch (CHR ''\<newline>'') \<Longrightarrow> plain (c # rest)"
  by (simp add: plain_def keyword_line_def)

lemma plain_second: "c \<noteq> Sym Warning \<Longrightarrow> plain (Ch (CHR ''\<newline>'') # c # rest)"
  by (simp add: plain_def keyword_line_def)

lemma plain_note:
  "plain ([Ch (CHR ''\<newline>''), Sym Warning, Sym Selector]
            @ lit '' <b>Note:</b> This is a pre-release version'')"
  by (simp add: plain_def keyword_line_def)


lemma message_lines_shape:
  assumes "message_lines r = Inr message" and "body r = Some (Some notes)"
  shows "\<exists>before. before \<noteq> [] \<and> (\<forall>l\<in>set before. plain l)
     \<and> message = before
         @ [lit ''\<newline><b>Release Notes:</b>\<newline>''
              @ (if 500 < length notes then take 497 notes @ lit ''...'' else notes)]
         @ map keyword_line (filter (\<lambda>k. occurs_ci k notes) important_keywords)"
proof -
  from assms obtain tag where tag: "tag_name r = Some tag"
    by (cases "tag_name r") (simp_all add: message_lines_def getitem_def)
  from assms tag obtain nm where nm: "name r = Some nm"
    by (cases "name r") (simp_all add: message_lines_def getitem_def)
  from assms tag nm obtain url where url: "html_url r = Some url"
    by (cases "html_url r") (simp_all add: message_lines_def getitem_def Let_def)
  define m1 where "m1 =
    [[Sym Bell] @ lit '' <b>New Cardano Node Release!</b>'',
     lit ''\<newline><b>Version:</b> '' @ tag,
     lit ''<b>Name:</b> '' @ py_str nm]"
  define m2 where "m2 =
    (if snd (parse_version tag)
     then m1 @ [[Ch (CHR ''\<newline>''), Sym Warning, Sym Selector]
                  @ lit '' <b>Note:</b> This is a pre-release version'']
     else m1) @ [lit ''\<newline><b>Release URL:</b> '' @ url]"
  define m3 where "m3 =
    (case assets r of
       None \<Rightarrow> Inr m2
     | Some [] \<Rightarrow> Inr m2
     | Some (a # as) \<Rightarrow>
         asset_loop (a # as) (m2 @ [lit ''\<newline><b>Available Downloads:</b>'']))"
  have unfolded: "message_lines r =
    (case m3 of
       Inl e \<Rightarrow> Inl e
     | Inr m \<Rightarrow>
         Inr (keyword_loop important_keywords (str_lower notes)
           (m @ [lit ''\<newline><b>Release Notes:</b>\<newline>''
                   @ (if 500 < length notes then take 497 notes @ lit ''...'' else notes)])))"
    unfolding message_lines_def getitem_def tag nm url assms(2) Let_def m1_def m2_def m3_def
      option.case sum.case
    by (rule refl)
  with assms(1) obtain m where m3: "m3 = Inr m"
    and msg: "message = keyword_loop important_keywords (str_lower notes)
         (m @ [lit ''\<newline><b>Release Notes:</b>\<newline>''
                 @ (if 500 < length notes then take 497 notes @ lit ''...'' else notes)])"
    by (cases m3) auto
  have p1: "\<forall>l\<in>set m1. plain l"
    by (simp add: m1_def plain_first plain_second)
  have p2: "\<forall>l\<in>set m2. plain l" and n2: "m2 \<noteq> []"
    using p1 plain_note by (auto simp: m2_def plain_second)
  have "m \<noteq> [] \<and> (\<forall>l\<in>set m. plain l)"
  proof (cases "assets r")
    case None
    with m3 p2 n2 show ?thesis by (simp add: m3_def)
  next
    case (Some as)
    show ?thesis
    proof (cases as)
      case Nil
      with Some m3 p2 n2 show ?thesis by (simp add: m3_def)
    next
      case (Cons a as')
      with Some m3
      have "asset_loop (a # as') (m2 @ [lit ''\<newline><b>Available Downloads:</b>'']) = Inr m"
        by (simp add: m3_def)
      from asset_loop_shape[OF this] obtain extra
        where "m = (m2 @ [lit ''\<newline><b>Available Downloads:</b>'']) @ extra"
          and "\<forall>l\<in>set extra. \<exists>rest. l = Sym Bullet # rest"
        by blast
      with p2 show ?thesis
        by (auto simp: plain_first plain_second)
    qed
  qed
  with msg show ?thesis
    by (auto simp: keyword_loop_eq matched_keywords)
qed

lemma format_lines:
  "format_telegram_message r = Inr text \<Longrightarrow>
   \<exists>message. message_lines r = Inr message \<and> text = str_join (lit ''\<newline>'') message"
  by (cases "message_lines r") (auto simp: format_telegram_message_def)

text \<open>
  Claim C6. In the formatted message the heading of the release notes is followed by
  the notes as shown and then at once by the keyword lines, or by the end of the
  message. Notes longer than 500 characters are shown as their first 497 characters
  and three dots, 500 characters in all and so never the full notes; notes of at most
  500 characters are shown as they are.
\<close>

theorem release_notes_truncated:
  assumes "format_telegram_message r = Inr text" and "body r = Some (Some notes)"
  shows "\<exists>before shown.
      shown = (if 500 < length notes then take 497 notes @ lit ''...'' else notes)
    \<and> before \<noteq> []
    \<and> text = str_join (lit ''\<newline>'') before
               @ lit ''\<newline>\<newline><b>Release Notes:</b>\<newline>'' @ shown
               @ concat (map (\<lambda>k. lit ''\<newline>'' @ keyword_line k)
                   (filter (\<lambda>k. occurs_ci k notes) important_keywords))
    \<and> length shown = (if 500 < length notes then 500 else length notes)
    \<and> (shown = notes) = (length notes \<le> 500)"
proof -
  define shown where "shown = (if 500 < length notes then take 497 notes @ lit ''...'' else notes)"
  from format_lines[OF assms(1)] obtain message
    where ml: "message_lines r = Inr message"
      and joined: "text = str_join (lit ''\<newline>'') message"
    by blast
  from message_lines_shape[OF ml assms(2)] obtain before
    where b: "before \<noteq> []"
      and m: "message = before
         @ [lit ''\<newline><b>Release Notes:</b>\<newline>'' @ shown]
         @ map keyword_line (filter (\<lambda>k. occurs_ci k notes) important_keywords)"
    unfolding shown_def by blast
  have "text = str_join (lit ''\<newline>'') before
               @ lit ''\<newline>\<newline><b>Release Notes:</b>\<newline>'' @ shown
               @ concat (map (\<lambda>k. lit ''\<newline>'' @ keyword_line k)
                   (filter (\<lambda>k. occurs_ci k notes) important_keywords))"
    unfolding joined m by (simp add: str_join_append[OF b] comp_def)
  moreover have len: "length shown = (if 500 < length notes then 500 else length notes)"
    by (simp add: shown_def)
  moreover have "(shown = notes) = (length notes \<le> 500)"
  proof (cases "500 < length notes")
    case True
    with len have "length shown \<noteq> length notes" by simp
    then have "shown \<noteq> notes" by auto
    with True show ?thesis by simp
  next
    case False
    then show ?thesis by (simp add: shown_def)
  qed
  ultimately show ?thesis
    using b shown_def by blast
qed

theorem release_notes_truncated_witness:
  "body release_long = Some (Some (replicate 600 (Ch (CHR ''x''))))
   \<and> \<not> isl (format_telegram_message release_long)
   \<and> sublist
       (lit ''\<newline>\<newline><b>Release Notes:</b>\<newline>'' @ replicate 497 (Ch (CHR ''x'')) @ lit ''...'')
       (projr (format_telegram_message release_long))
   \<and> length (replicate 497 (Ch (CHR ''x'')) @ lit ''...'') = 500"
proof -
  have body: "body release_long = Some (Some (replicate 600 (Ch (CHR ''x''))))"
    by (simp add: release_long_def)
  have "complete release_long"
    by (simp add: complete_def release_long_def)
  from message_lines_total[OF this] obtain m where "message_lines release_long = Inr m" ..
  then have fmt: "format_telegram_message release_long
      = Inr (projr (format_telegram_message release_long))"
    by (simp add: format_telegram_message_def)
  then have ok: "\<not> isl (format_telegram_message release_long)"
    by (metis sum.disc(2))
  from release_notes_truncated[OF fmt body] obtain before
    where "projr (format_telegram_message release_long)
       = str_join (lit ''\<newline>'') before
           @ (lit ''\<newline>\<newline><b>Release Notes:</b>\<newline>''
               @ replicate 497 (Ch (CHR ''x'')) @ lit ''...'')
           @ concat (map (\<lambda>k. lit ''\<newline>'' @ keyword_line k)
               (filter (\<lambda>k. occurs_ci k (replicate 600 (Ch (CHR ''x'')))) important_keywords))"
    by auto
  then have "sublist
       (lit ''\<newline>\<newline><b>Release Notes:</b>\<newline>'' @ replicate 497 (Ch (CHR ''x'')) @ lit ''...'')
       (projr (format_telegram_message release_long))"
    by (metis sublist_appendI)
  with body ok show ?thesis by simp
qed



end
